theory Spec2Isabelle
  imports Complex_Main "HOL-Library.Word"
begin

section \<open>Data model (models.py)\<close>

text \<open>
  \<^verbatim>\<open>BarState\<close> and \<^verbatim>\<open>CutEvent\<close> are dataclasses whose fields are Python integers
  (unbounded, possibly negative: the dataclass checks nothing). Equality of records is
  structural, as \<^verbatim>\<open>BarState.__eq__\<close> is. The float \<^verbatim>\<open>timestamp\<close> is kept as the exact
  quotient \<^verbatim>\<open>frame_number / fps\<close>.
\<close>

record BarState =
  left_width :: int
  right_width :: int
  top_height :: int
  bottom_height :: int

record CutEvent =
  timestamp :: rat
  frame_number :: int
  before_state :: BarState
  after_state :: BarState

datatype error = ValueError string | ZeroDivisionError

section \<open>Black bar detection (detector.py)\<close>

record BlackBarDetector =
  black_threshold :: int
  min_bar_size :: int
  tolerance_pixels :: int

text \<open>
  The detector works on the single-channel image \<^verbatim>\<open>gray\<close>: \<^verbatim>\<open>shape0\<close> rows and \<^verbatim>\<open>shape1\<close>
  columns of 8-bit intensities, \<^verbatim>\<open>px g row col\<close> being \<^verbatim>\<open>gray[row, col]\<close>. The conversion
  \<^verbatim>\<open>cv2.cvtColor\<close> of a colour frame belongs to OpenCV and is not modelled.
\<close>

record gray =
  shape0 :: nat
  shape1 :: nat
  px :: "nat \<Rightarrow> nat \<Rightarrow> 8 word"

definition column :: "gray \<Rightarrow> nat \<Rightarrow> 8 word list" where
  \<comment> \<open>\<^verbatim>\<open>gray[:, col]\<close>\<close>
  "column g col = map (\<lambda>row. px g row col) [0..<shape0 g]"

definition row_slice :: "gray \<Rightarrow> nat \<Rightarrow> 8 word list" where
  \<comment> \<open>\<^verbatim>\<open>gray[row, :]\<close>\<close>
  "row_slice g row = map (\<lambda>col. px g row col) [0..<shape1 g]"

definition np_mean :: "8 word list \<Rightarrow> rat option" where
  \<comment> \<open>\<^verbatim>\<open>np.mean\<close> of a one-dimensional slice, as the exact quotient; the mean of an empty
      slice is nan, here \<open>None\<close>.\<close>
  "np_mean xs =
     (if xs = [] then None
      else Some (of_nat (sum_list (map unat xs)) / of_nat (length xs)))"

definition py_gt :: "rat option \<Rightarrow> int \<Rightarrow> bool" where
  \<comment> \<open>\<^verbatim>\<open>mean > self.black_threshold\<close>; every comparison with nan is false.\<close>
  "py_gt m t = (case m of None \<Rightarrow> False | Some v \<Rightarrow> of_int t < v)"

text \<open>
  The four scanning loops have two shapes. \<open>scan_up\<close> is
  \<^verbatim>\<open>for i in range(n): if mean(i) > threshold: break; size = i + 1\<close>,
  entered at index \<open>i\<close> with the current \<open>size\<close>; \<open>scan_down\<close> is
  \<^verbatim>\<open>for i in range(n - 1, -1, -1): if mean(i) > threshold: break; size = n - i\<close>,
  its argument after \<open>n\<close> being the number of indices still to visit (the loop index
  plus one). The means are exact quotients; numpy computes them in double precision,
  which decides \<^verbatim>\<open>mean > threshold\<close> the same way for an integer threshold and
  slices of any realistic length.
\<close>

function scan_up :: "(nat \<Rightarrow> rat option) \<Rightarrow> int \<Rightarrow> nat \<Rightarrow> nat \<Rightarrow> nat \<Rightarrow> nat" where
  "scan_up mean t n i sz =
     (if i < n
      then (if py_gt (mean i) t then sz else scan_up mean t n (i + 1) (i + 1))
      else sz)"
  by pat_completeness auto
termination
  by (relation "measure (\<lambda>(mean, t, n, i, sz). n - i)") auto

declare scan_up.simps [simp del]

fun scan_down :: "(nat \<Rightarrow> rat option) \<Rightarrow> int \<Rightarrow> nat \<Rightarrow> nat \<Rightarrow> nat \<Rightarrow> nat" where
  "scan_down mean t n 0 sz = sz"
| "scan_down mean t n (Suc i) sz =
     (if py_gt (mean i) t then sz else scan_down mean t n i (n - i))"

definition detect_vertical_bars :: "BlackBarDetector \<Rightarrow> gray \<Rightarrow> int \<times> int" where
  "detect_vertical_bars self g =
     (let w = shape1 g;
          col_mean = (\<lambda>col. np_mean (column g col));
          lw = int (scan_up col_mean (black_threshold self) w 0 0);
          rw = int (scan_down col_mean (black_threshold self) w w 0);
          lw' = (if lw \<ge> min_bar_size self then lw else 0);
          rw' = (if rw \<ge> min_bar_size self then rw else 0)
      in (lw', rw'))"

definition detect_horizontal_bars :: "BlackBarDetector \<Rightarrow> gray \<Rightarrow> int \<times> int" where
  "detect_horizontal_bars self g =
     (let h = shape0 g;
          row_mean = (\<lambda>row. np_mean (row_slice g row));
          th = int (scan_up row_mean (black_threshold self) h 0 0);
          bh = int (scan_down row_mean (black_threshold self) h h 0);
          th' = (if th \<ge> min_bar_size self then th else 0);
          bh' = (if bh \<ge> min_bar_size self then bh else 0)
      in (th', bh'))"

definition get_frame_bar_state :: "BlackBarDetector \<Rightarrow> gray \<Rightarrow> BarState" where
  "get_frame_bar_state self g =
     (case detect_vertical_bars self g of (lw, rw) \<Rightarrow>
      case detect_horizontal_bars self g of (th, bh) \<Rightarrow>
        \<lparr>left_width = lw, right_width = rw, top_height = th, bottom_height = bh\<rparr>)"

definition states_significantly_different ::
    "BlackBarDetector \<Rightarrow> BarState \<Rightarrow> BarState \<Rightarrow> bool" where
  "states_significantly_different self state1 state2 =
     (\<bar>left_width state1 - left_width state2\<bar> > tolerance_pixels self
      \<or> \<bar>right_width state1 - right_width state2\<bar> > tolerance_pixels self
      \<or> \<bar>top_height state1 - top_height state2\<bar> > tolerance_pixels self
      \<or> \<bar>bottom_height state1 - bottom_height state2\<bar> > tolerance_pixels self)"

section \<open>Frame analysis (analyzer.py)\<close>

text \<open>
  \<^verbatim>\<open>cv2.VideoCapture(video_path)\<close> is taken as given: whether it opened, its frame rate
  and the frames that successive \<^verbatim>\<open>cap.read()\<close> calls deliver before the first failing
  read. The progress display does not influence the result and is left out.
\<close>

record VideoCapture =
  isOpened :: bool
  cap_fps :: rat
  cap_frames :: "gray list"

text \<open>
  The \<^verbatim>\<open>while True\<close> loop of \<^verbatim>\<open>analyze_video\<close>, one equation per outcome of \<^verbatim>\<open>cap.read()\<close>.
  The state is \<^verbatim>\<open>previous_state\<close>, \<^verbatim>\<open>frame_number\<close> (here \<open>fn\<close>) and \<^verbatim>\<open>cuts\<close>. Both
  divisions of the body raise on a zero divisor: \<^verbatim>\<open>frame_number % sample_rate\<close> and
  \<^verbatim>\<open>frame_number / fps\<close>.
\<close>

fun analyze_loop ::
    "BlackBarDetector \<Rightarrow> int \<Rightarrow> rat \<Rightarrow> gray list \<Rightarrow> BarState option \<Rightarrow> int \<Rightarrow> CutEvent list
      \<Rightarrow> error + CutEvent list" where
  "analyze_loop detector sample_rate fps [] previous_state fn cuts = Inr cuts"
| "analyze_loop detector sample_rate fps (frame # rest) previous_state fn cuts =
     (if sample_rate = 0 then Inl ZeroDivisionError
      else if fn mod sample_rate = 0 then
        (let current_state = get_frame_bar_state detector frame in
         case previous_state of
           None \<Rightarrow> analyze_loop detector sample_rate fps rest (Some current_state) (fn + 1) cuts
         | Some previous \<Rightarrow>
             if states_significantly_different detector previous current_state then
               (if fps = 0 then Inl ZeroDivisionError
                else analyze_loop detector sample_rate fps rest (Some current_state) (fn + 1)
                  (cuts @ [\<lparr>timestamp = of_int fn / fps, frame_number = fn,
                             before_state = previous, after_state = current_state\<rparr>]))
             else analyze_loop detector sample_rate fps rest (Some current_state) (fn + 1) cuts)
      else analyze_loop detector sample_rate fps rest previous_state (fn + 1) cuts)"

definition analyze_video ::
    "string \<Rightarrow> VideoCapture \<Rightarrow> BlackBarDetector \<Rightarrow> int \<Rightarrow> error + CutEvent list" where
  "analyze_video video_path cap detector sample_rate =
     (if \<not> isOpened cap then Inl (ValueError (''Could not open video file: '' @ video_path))
      else analyze_loop detector sample_rate (cap_fps cap) (cap_frames cap) None 0 [])"

section \<open>Segment planning and crop geometry (utils.py)\<close>

text \<open>Decimal rendering of Python integers, for the f-strings of \<^verbatim>\<open>utils.py\<close>.\<close>

definition digit_char :: "nat \<Rightarrow> char" where
  "digit_char d = ''0123456789'' ! d"

function str_nat :: "nat \<Rightarrow> string" where
  "str_nat n = (if n < 10 then [digit_char n] else str_nat (n div 10) @ [digit_char (n mod 10)])"
  by pat_completeness auto
termination
  by (relation "measure id") auto

declare str_nat.simps [simp del]

definition str_int :: "int \<Rightarrow> string" where
  "str_int i = (if i < 0 then CHR ''-'' # str_nat (nat (- i)) else str_nat (nat i))"

definition fmt_02d :: "nat \<Rightarrow> string" where
  \<comment> \<open>\<^verbatim>\<open>f"{n:02d}"\<close> for the non-negative ordinals it is applied to\<close>
  "fmt_02d n = (if n < 10 then CHR ''0'' # str_nat n else str_nat n)"

type_synonym segment = "int \<times> int \<times> string \<times> BarState option"

definition start_frame :: "segment \<Rightarrow> int" where
  "start_frame seg = fst seg"

definition end_frame :: "segment \<Rightarrow> int" where
  "end_frame seg = fst (snd seg)"

text \<open>
  The segment boundaries computed by \<^verbatim>\<open>split_video_by_cuts\<close> (the part of the function that
  fills \<^verbatim>\<open>segments\<close>); \<^verbatim>\<open>total_frames\<close> is what the capture reports as its frame count.
  The \<^verbatim>\<open>for i in range(len(cuts) - 1)\<close> loop appends one segment per index.
\<close>

definition split_video_by_cuts_segments :: "CutEvent list \<Rightarrow> int \<Rightarrow> segment list" where
  "split_video_by_cuts_segments cuts total_frames =
     (if cuts \<noteq> [] then
        (let segments0 = [(0, frame_number (cuts ! 0), ''segment_01'', Some (before_state (cuts ! 0)))];
             segments1 = foldl (\<lambda>segments i. segments @
                 [(frame_number (cuts ! i), frame_number (cuts ! (i + 1)),
                   ''segment_'' @ fmt_02d (i + 2), Some (after_state (cuts ! i)))])
               segments0 [0..<length cuts - 1];
             last_cut_frame = frame_number (last cuts)
         in if last_cut_frame < total_frames
            then segments1 @ [(last_cut_frame, total_frames,
                   ''segment_'' @ fmt_02d (length cuts + 1), Some (after_state (last cuts)))]
            else segments1)
      else [(0, total_frames, ''segment_01'', None)])"

definition calculate_crop_filter :: "BarState \<Rightarrow> int \<Rightarrow> int \<Rightarrow> string" where
  "calculate_crop_filter bs w h =
     (let crop_width = w - left_width bs - right_width bs;
          crop_height = h - top_height bs - bottom_height bs;
          has_bars = (left_width bs > 0 \<or> right_width bs > 0
                      \<or> top_height bs > 0 \<or> bottom_height bs > 0)
      in if has_bars \<and> crop_width > 0 \<and> crop_height > 0 \<and> crop_width \<ge> 64 \<and> crop_height \<ge> 64
         then ''crop='' @ str_int crop_width @ '':'' @ str_int crop_height @ '':''
                @ str_int (left_width bs) @ '':'' @ str_int (top_height bs)
         else [])"

text \<open>
  What \<^verbatim>\<open>_split_with_ffmpeg_frame_accurate\<close> adds to the encoder's command line for
  cropping: nothing, or \<^verbatim>\<open>-vf\<close> followed by the crop filter.
\<close>

definition split_with_ffmpeg_crop_args :: "BarState option \<Rightarrow> int \<Rightarrow> int \<Rightarrow> string list" where
  "split_with_ffmpeg_crop_args bs w h =
     (case bs of
        None \<Rightarrow> []
      | Some s \<Rightarrow>
          if w > 0 \<and> h > 0
          then (let crop_filter = calculate_crop_filter s w h
                in if crop_filter \<noteq> [] then [''-vf'', crop_filter] else [])
          else [])"

section \<open>The specification's wording\<close>

text \<open>
  The definitions of this section follow the specification, not the code; the
  theorems compare them with the code.
\<close>

definition le_threshold :: "rat option \<Rightarrow> int \<Rightarrow> bool" where
  \<comment> \<open>"mean luminance at most the black threshold"; where there is no mean, it is not\<close>
  "le_threshold m t = (case m of None \<Rightarrow> False | Some v \<Rightarrow> v \<le> of_int t)"

definition black_column :: "BlackBarDetector \<Rightarrow> gray \<Rightarrow> nat \<Rightarrow> bool" where
  "black_column self g col = le_threshold (np_mean (column g col)) (black_threshold self)"

definition black_row :: "BlackBarDetector \<Rightarrow> gray \<Rightarrow> nat \<Rightarrow> bool" where
  "black_row self g row = le_threshold (np_mean (row_slice g row)) (black_threshold self)"

definition longest_black_prefix :: "BlackBarDetector \<Rightarrow> gray \<Rightarrow> nat" where
  \<comment> \<open>the length of the longest prefix of columns, from column 0 rightward, that are black\<close>
  "longest_black_prefix self g = length (takeWhile (black_column self g) [0..<shape1 g])"

definition fully_black :: "BlackBarDetector \<Rightarrow> gray \<Rightarrow> bool" where
  "fully_black self g =
     (list_all (black_column self g) [0..<shape1 g] \<and> list_all (black_row self g) [0..<shape0 g])"

text \<open>
  The visited frames of a run, each with its frame number and its measured bar state:
  the frames whose number is a multiple of the sample rate, numbered from \<open>fn\<close>.
\<close>

fun visited :: "BlackBarDetector \<Rightarrow> int \<Rightarrow> int \<Rightarrow> gray list \<Rightarrow> (int \<times> BarState) list" where
  "visited detector sample_rate fn [] = []"
| "visited detector sample_rate fn (frame # rest) =
     (if fn mod sample_rate = 0
      then (fn, get_frame_bar_state detector frame) # visited detector sample_rate (fn + 1) rest
      else visited detector sample_rate (fn + 1) rest)"

definition exceeds_tolerance :: "int \<Rightarrow> BarState \<Rightarrow> BarState \<Rightarrow> bool" where
  \<comment> \<open>the absolute difference of at least one of the four fields is above the tolerance\<close>
  "exceeds_tolerance tol a b =
     (\<bar>left_width a - left_width b\<bar> > tol \<or> \<bar>right_width a - right_width b\<bar> > tol
      \<or> \<bar>top_height a - top_height b\<bar> > tol \<or> \<bar>bottom_height a - bottom_height b\<bar> > tol)"

text \<open>
  The cut events that a sequence of visited frames gives rise to: one for each frame
  whose bar state differs significantly from that of the visited frame before it.
\<close>

fun cuts_between :: "BlackBarDetector \<Rightarrow> rat \<Rightarrow> (int \<times> BarState) list \<Rightarrow> CutEvent list" where
  "cuts_between detector fps (a # b # rest) =
     (if states_significantly_different detector (snd a) (snd b)
      then [\<lparr>timestamp = of_int (fst b) / fps, frame_number = fst b,
              before_state = snd a, after_state = snd b\<rparr>]
      else []) @ cuts_between detector fps (b # rest)"
| "cuts_between detector fps [a] = []"
| "cuts_between detector fps [] = []"

text \<open>
  The crop rule of the specification, with the rectangle as \<open>(x, y, width, height)\<close>,
  and the form in which the encoder receives a rectangle.
\<close>

definition non_negative :: "BarState \<Rightarrow> bool" where
  \<comment> \<open>the bar sizes of the data model: non-negative pixel counts\<close>
  "non_negative s =
     (0 \<le> left_width s \<and> 0 \<le> right_width s \<and> 0 \<le> top_height s \<and> 0 \<le> bottom_height s)"

definition crop_rule :: "BarState option \<Rightarrow> int \<Rightarrow> int \<Rightarrow> (int \<times> int \<times> int \<times> int) option" where
  "crop_rule bs w h =
     (case bs of
        None \<Rightarrow> None
      | Some s \<Rightarrow>
          if left_width s = 0 \<and> right_width s = 0 \<and> top_height s = 0 \<and> bottom_height s = 0
          then None
          else (let crop_width = w - left_width s - right_width s;
                    crop_height = h - top_height s - bottom_height s
                in if crop_width \<le> 0 \<or> crop_height \<le> 0 then None
                   else if \<not> (crop_width \<ge> 64 \<and> crop_height \<ge> 64) then None
                   else Some (left_width s, top_height s, crop_width, crop_height)))"

definition crop_filter_string :: "int \<times> int \<times> int \<times> int \<Rightarrow> string" where
  "crop_filter_string r =
     (case r of (x, y, cw, ch) \<Rightarrow>
        ''crop='' @ str_int cw @ '':'' @ str_int ch @ '':'' @ str_int x @ '':'' @ str_int y)"

definition crop_args_of :: "(int \<times> int \<times> int \<times> int) option \<Rightarrow> string list" where
  "crop_args_of r = (case r of None \<Rightarrow> [] | Some rect \<Rightarrow> [''-vf'', crop_filter_string rect])"

section \<open>Example inputs\<close>

text \<open>
  Small frames: one row of two pixels with a black left column, the same without
  a bar, and a single black pixel. The detector of the examples has the default
  threshold 10.
\<close>

definition frame_left_bar :: gray where
  "frame_left_bar = \<lparr>shape0 = 1, shape1 = 2, px = (\<lambda>row col. if col = 0 then 0 else 255)\<rparr>"

definition frame_no_bar :: gray where
  "frame_no_bar = \<lparr>shape0 = 1, shape1 = 2, px = (\<lambda>row col. 255)\<rparr>"

definition frame_black :: gray where
  "frame_black = \<lparr>shape0 = 1, shape1 = 1, px = (\<lambda>row col. 0)\<rparr>"

definition detector_with :: "int \<Rightarrow> int \<Rightarrow> BlackBarDetector" where
  "detector_with min_size tolerance =
     \<lparr>black_threshold = 10, min_bar_size = min_size, tolerance_pixels = tolerance\<rparr>"

definition example_capture :: VideoCapture where
  "example_capture =
     \<lparr>isOpened = True, cap_fps = 30, cap_frames = [frame_left_bar, frame_left_bar, frame_no_bar]\<rparr>"

definition uniform_capture :: VideoCapture where
  "uniform_capture = \<lparr>isOpened = True, cap_fps = 30, cap_frames = [frame_left_bar, frame_left_bar]\<rparr>"

definition example_cut :: "int \<Rightarrow> BarState \<Rightarrow> BarState \<Rightarrow> CutEvent" where
  "example_cut n before after =
     \<lparr>timestamp = of_int n / 30, frame_number = n, before_state = before, after_state = after\<rparr>"

definition bars :: "int \<Rightarrow> int \<Rightarrow> int \<Rightarrow> int \<Rightarrow> BarState" where
  "bars l r t b = \<lparr>left_width = l, right_width = r, top_height = t, bottom_height = b\<rparr>"

definition two_cuts :: "CutEvent list" where
  "two_cuts = [example_cut 100 (bars 10 10 0 0) (bars 0 0 0 0),
               example_cut 200 (bars 0 0 0 0) (bars 0 0 20 20)]"

section \<open>The significance test\<close>

text \<open>
  C7. The significance test is symmetric: swapping the two bar states does not change
  the answer, whatever the tolerance.
\<close>

theorem states_significantly_different_sym:
  "states_significantly_different self s1 s2 = states_significantly_different self s2 s1"
  by (simp add: states_significantly_different_def abs_minus_commute)

section \<open>Measuring the bars of one frame\<close>

text \<open>
  Both scans count the indices they pass before the first mean above the threshold:
  the upward scan over \<open>[0..<n]\<close>, the downward scan over its reversal.
\<close>

lemma scan_up_takeWhile:
  "i \<le> n \<Longrightarrow> scan_up mean t n i i = i + length (takeWhile (\<lambda>j. \<not> py_gt (mean j) t) [i..<n])"
proof (induction "n - i" arbitrary: i)
  case 0
  then show ?case by (subst scan_up.simps) simp
next
  case (Suc k)
  then have "i < n" by simp
  then have u: "[i..<n] = i # [Suc i..<n]" by (simp add: upt_rec)
  show ?case
  proof (cases "py_gt (mean i) t")
    case True
    with \<open>i < n\<close> u show ?thesis by (subst scan_up.simps) simp
  next
    case False
    from Suc have "scan_up mean t n (Suc i) (Suc i) = Suc i + length (takeWhile (\<lambda>j. \<not> py_gt (mean j) t) [Suc i..<n])"
      by simp
    with False \<open>i < n\<close> u show ?thesis by (subst scan_up.simps) simp
  qed
qed

lemma scan_down_takeWhile:
  "k \<le> n \<Longrightarrow> scan_down mean t n k (n - k) = n - k + length (takeWhile (\<lambda>j. \<not> py_gt (mean j) t) (rev [0..<k]))"
  by (induction k) simp_all

lemma scan_up_prefix:
  "scan_up mean t n 0 0 = length (takeWhile (\<lambda>j. \<not> py_gt (mean j) t) [0..<n])"
  using scan_up_takeWhile [of 0 n mean t] by simp

lemma scan_down_suffix:
  "scan_down mean t n n 0 = length (takeWhile (\<lambda>j. \<not> py_gt (mean j) t) (rev [0..<n]))"
  using scan_down_takeWhile [of n n mean t] by simp

lemma scan_up_le: "scan_up mean t n 0 0 \<le> n"
  using length_takeWhile_le [of "\<lambda>j. \<not> py_gt (mean j) t" "[0..<n]"]
  by (simp add: scan_up_prefix)

lemma scan_down_le: "scan_down mean t n n 0 \<le> n"
  using length_takeWhile_le [of "\<lambda>j. \<not> py_gt (mean j) t" "rev [0..<n]"]
  by (simp add: scan_down_suffix)

lemma takeWhile_upt_stop:
  assumes "k < n" and "\<forall>c<k. P c" and "\<not> P k"
  shows "length (takeWhile P [0..<n]) = k"
proof -
  have "[0..<k + (n - k)] = [0..<k] @ [k..<k + (n - k)]"
    by (rule upt_add_eq_append) simp
  then have "[0..<n] = [0..<k] @ k # [Suc k..<n]"
    using assms(1) by (simp add: upt_conv_Cons)
  moreover have "takeWhile P ([0..<k] @ k # [Suc k..<n]) = [0..<k] @ takeWhile P (k # [Suc k..<n])"
    by (rule takeWhile_append2) (use assms(2) in simp)
  ultimately show ?thesis using assms(3) by simp
qed

lemma takeWhile_all: "\<forall>x\<in>set xs. P x \<Longrightarrow> length (takeWhile P xs) = length xs"
  by (induction xs) simp_all

lemma takeWhile_all_rev: "\<forall>x\<in>set xs. P x \<Longrightarrow> length (takeWhile P (rev xs)) = length xs"
  using takeWhile_all [of "rev xs" P] by simp

text \<open>
  A slice with at least one pixel has a mean, and then "at most the threshold" is
  "not above the threshold". An empty slice has none: numpy reports nan, which is
  neither.
\<close>

lemma le_threshold_iff_not_gt:
  "xs \<noteq> [] \<Longrightarrow> le_threshold (np_mean xs) t = (\<not> py_gt (np_mean xs) t)"
  by (auto simp: le_threshold_def py_gt_def np_mean_def)

lemma le_threshold_not_gt: "le_threshold m t \<Longrightarrow> \<not> py_gt m t"
  by (auto simp: le_threshold_def py_gt_def split: option.splits)

lemma column_nonempty: "0 < shape0 g \<Longrightarrow> column g col \<noteq> []"
  by (simp add: column_def)

lemma left_width_scan:
  "left_width (get_frame_bar_state self g) =
     (let lw = int (scan_up (\<lambda>col. np_mean (column g col)) (black_threshold self) (shape1 g) 0 0)
      in if lw \<ge> min_bar_size self then lw else 0)"
  by (simp add: get_frame_bar_state_def detect_vertical_bars_def Let_def split: prod.splits)

lemma right_width_scan:
  "right_width (get_frame_bar_state self g) =
     (let rw = int (scan_down (\<lambda>col. np_mean (column g col)) (black_threshold self) (shape1 g) (shape1 g) 0)
      in if rw \<ge> min_bar_size self then rw else 0)"
  by (simp add: get_frame_bar_state_def detect_vertical_bars_def Let_def split: prod.splits)

lemma top_height_scan:
  "top_height (get_frame_bar_state self g) =
     (let th = int (scan_up (\<lambda>row. np_mean (row_slice g row)) (black_threshold self) (shape0 g) 0 0)
      in if th \<ge> min_bar_size self then th else 0)"
  by (simp add: get_frame_bar_state_def detect_horizontal_bars_def Let_def split: prod.splits)

lemma bottom_height_scan:
  "bottom_height (get_frame_bar_state self g) =
     (let bh = int (scan_down (\<lambda>row. np_mean (row_slice g row)) (black_threshold self) (shape0 g) (shape0 g) 0)
      in if bh \<ge> min_bar_size self then bh else 0)"
  by (simp add: get_frame_bar_state_def detect_horizontal_bars_def Let_def split: prod.splits)

lemma longest_black_prefix_scan:
  assumes "0 < shape0 g"
  shows "longest_black_prefix self g =
    scan_up (\<lambda>col. np_mean (column g col)) (black_threshold self) (shape1 g) 0 0"
proof -
  have "black_column self g = (\<lambda>col. \<not> py_gt (np_mean (column g col)) (black_threshold self))"
    using assms by (auto simp: black_column_def le_threshold_iff_not_gt column_nonempty)
  then show ?thesis
    by (simp add: longest_black_prefix_def scan_up_prefix)
qed

text \<open>
  C5. For a frame with at least one row, the measured left bar width is the length of
  the longest prefix of columns, from column 0 rightward, whose mean luminance is at
  most the black threshold, replaced by 0 when that length is below \<^verbatim>\<open>min_bar_size\<close>.
  In particular, when the leftmost \<open>k < min_bar_size\<close> columns are black and column
  \<open>k\<close> is not, the measured left width is 0.
\<close>

theorem left_width_longest_black_prefix:
  assumes "0 < shape0 g"
  shows "left_width (get_frame_bar_state self g) =
           (if int (longest_black_prefix self g) \<ge> min_bar_size self
            then int (longest_black_prefix self g) else 0)
         \<and> (\<forall>k. k < shape1 g \<and> int k < min_bar_size self
                \<and> (\<forall>col<k. black_column self g col) \<and> \<not> black_column self g k
              \<longrightarrow> left_width (get_frame_bar_state self g) = 0)"
proof -
  have eq: "left_width (get_frame_bar_state self g) =
           (if int (longest_black_prefix self g) \<ge> min_bar_size self
            then int (longest_black_prefix self g) else 0)"
    using assms by (simp add: left_width_scan longest_black_prefix_scan Let_def)
  have "left_width (get_frame_bar_state self g) = 0"
    if "k < shape1 g" "int k < min_bar_size self"
       "\<forall>col<k. black_column self g col" "\<not> black_column self g k" for k
  proof -
    have "longest_black_prefix self g = k"
      unfolding longest_black_prefix_def using that(1,3,4) by (rule takeWhile_upt_stop)
    with eq that(2) show ?thesis by simp
  qed
  with eq show ?thesis by blast
qed

theorem left_width_longest_black_prefix_witness:
  "0 < shape0 frame_left_bar
   \<and> 1 < shape1 frame_left_bar \<and> 1 < min_bar_size (detector_with 2 5)
   \<and> black_column (detector_with 2 5) frame_left_bar 0
   \<and> \<not> black_column (detector_with 2 5) frame_left_bar 1
   \<and> longest_black_prefix (detector_with 2 5) frame_left_bar = 1
   \<and> left_width (get_frame_bar_state (detector_with 2 5) frame_left_bar) = 0
   \<and> left_width (get_frame_bar_state (detector_with 1 5) frame_left_bar) = 1"
proof -
  have rows: "0 < shape0 frame_left_bar"
    by (simp add: frame_left_bar_def)
  have k: "(1::nat) < shape1 frame_left_bar" "1 < min_bar_size (detector_with 2 5)"
    by (simp_all add: frame_left_bar_def detector_with_def)
  have black: "black_column (detector_with 2 5) frame_left_bar 0"
    by code_simp
  have white: "\<not> black_column (detector_with 2 5) frame_left_bar 1"
    by code_simp
  have prefix: "longest_black_prefix (detector_with 2 5) frame_left_bar = 1"
    "longest_black_prefix (detector_with 1 5) frame_left_bar = 1"
    by code_simp+
  note inst = left_width_longest_black_prefix [OF rows, of "detector_with 2 5"]
  from inst have "1 < shape1 frame_left_bar \<and> int 1 < min_bar_size (detector_with 2 5)
       \<and> (\<forall>col<1. black_column (detector_with 2 5) frame_left_bar col)
       \<and> \<not> black_column (detector_with 2 5) frame_left_bar 1
     \<longrightarrow> left_width (get_frame_bar_state (detector_with 2 5) frame_left_bar) = 0"
    by blast
  with k black white
  have filtered: "left_width (get_frame_bar_state (detector_with 2 5) frame_left_bar) = 0"
    by simp
  have small: "min_bar_size (detector_with 1 5) = 1"
    by (simp add: detector_with_def)
  from left_width_longest_black_prefix [OF rows, of "detector_with 1 5", THEN conjunct1]
  have kept: "left_width (get_frame_bar_state (detector_with 1 5) frame_left_bar) = 1"
    by (simp add: prefix small)
  from rows k black white prefix(1) filtered kept show ?thesis by blast
qed

text \<open>
  C6, as the code has it. On a fully black frame each scan runs through the whole
  dimension, and the minimum size filter then applies as everywhere else: the left
  and right widths are the frame width when the width is at least \<^verbatim>\<open>min_bar_size\<close>
  and 0 otherwise, the top and bottom heights likewise with the frame height. No
  overlap correction takes place.
\<close>

theorem fully_black_bar_state:
  assumes "fully_black self g"
  shows "get_frame_bar_state self g =
    \<lparr>left_width = (if int (shape1 g) \<ge> min_bar_size self then int (shape1 g) else 0),
     right_width = (if int (shape1 g) \<ge> min_bar_size self then int (shape1 g) else 0),
     top_height = (if int (shape0 g) \<ge> min_bar_size self then int (shape0 g) else 0),
     bottom_height = (if int (shape0 g) \<ge> min_bar_size self then int (shape0 g) else 0)\<rparr>"
proof -
  let ?t = "black_threshold self"
  have cols: "\<forall>col\<in>set [0..<shape1 g]. \<not> py_gt (np_mean (column g col)) ?t"
    using assms by (auto simp: fully_black_def list_all_iff black_column_def dest: le_threshold_not_gt)
  have rows: "\<forall>row\<in>set [0..<shape0 g]. \<not> py_gt (np_mean (row_slice g row)) ?t"
    using assms by (auto simp: fully_black_def list_all_iff black_row_def dest: le_threshold_not_gt)
  have l: "scan_up (\<lambda>col. np_mean (column g col)) ?t (shape1 g) 0 0 = shape1 g"
    using takeWhile_all [OF cols] by (simp add: scan_up_prefix)
  have r: "scan_down (\<lambda>col. np_mean (column g col)) ?t (shape1 g) (shape1 g) 0 = shape1 g"
    using takeWhile_all_rev [OF cols] by (simp add: scan_down_suffix)
  have t: "scan_up (\<lambda>row. np_mean (row_slice g row)) ?t (shape0 g) 0 0 = shape0 g"
    using takeWhile_all [OF rows] by (simp add: scan_up_prefix)
  have b: "scan_down (\<lambda>row. np_mean (row_slice g row)) ?t (shape0 g) (shape0 g) 0 = shape0 g"
    using takeWhile_all_rev [OF rows] by (simp add: scan_down_suffix)
  show ?thesis
    by (simp add: get_frame_bar_state_def detect_vertical_bars_def detect_horizontal_bars_def
        Let_def l r t b)
qed

theorem fully_black_bar_state_witness:
  "fully_black (detector_with 1 5) frame_black
   \<and> get_frame_bar_state (detector_with 1 5) frame_black
       = \<lparr>left_width = 1, right_width = 1, top_height = 1, bottom_height = 1\<rparr>"
proof -
  have black: "fully_black (detector_with 1 5) frame_black"
    by code_simp
  from fully_black_bar_state [OF black] black show ?thesis
    by (simp add: frame_black_def detector_with_def)
qed

text \<open>
  C6 as stated fails on a fully black frame smaller than \<^verbatim>\<open>min_bar_size\<close>: with the
  default minimum size 10, the one-pixel black frame measures 0 on all four sides,
  not 1.
\<close>

theorem fully_black_counterexample:
  "fully_black (detector_with 10 5) frame_black
   \<and> left_width (get_frame_bar_state (detector_with 10 5) frame_black) \<noteq> int (shape1 frame_black)
   \<and> right_width (get_frame_bar_state (detector_with 10 5) frame_black) \<noteq> int (shape1 frame_black)
   \<and> top_height (get_frame_bar_state (detector_with 10 5) frame_black) \<noteq> int (shape0 frame_black)
   \<and> bottom_height (get_frame_bar_state (detector_with 10 5) frame_black) \<noteq> int (shape0 frame_black)"
proof -
  have black: "fully_black (detector_with 10 5) frame_black"
    by code_simp
  have state: "get_frame_bar_state (detector_with 10 5) frame_black
       = \<lparr>left_width = 0, right_width = 0, top_height = 0, bottom_height = 0\<rparr>"
    by code_simp
  have dims: "shape1 frame_black = 1" "shape0 frame_black = 1"
    by (simp_all add: frame_black_def)
  from black show ?thesis
    by (simp add: state dims)
qed

text \<open>
  C9. Each of the four fields of a measured bar state is 0 or lies between
  \<^verbatim>\<open>min_bar_size\<close> and the frame's dimension (the width for left and right, the height
  for top and bottom); so no field is negative, and none lies strictly between 0 and
  \<^verbatim>\<open>min_bar_size\<close>.
\<close>

theorem get_frame_bar_state_range:
  "(left_width (get_frame_bar_state self g) = 0
      \<or> (min_bar_size self \<le> left_width (get_frame_bar_state self g)
          \<and> left_width (get_frame_bar_state self g) \<le> int (shape1 g)))
   \<and> (right_width (get_frame_bar_state self g) = 0
      \<or> (min_bar_size self \<le> right_width (get_frame_bar_state self g)
          \<and> right_width (get_frame_bar_state self g) \<le> int (shape1 g)))
   \<and> (top_height (get_frame_bar_state self g) = 0
      \<or> (min_bar_size self \<le> top_height (get_frame_bar_state self g)
          \<and> top_height (get_frame_bar_state self g) \<le> int (shape0 g)))
   \<and> (bottom_height (get_frame_bar_state self g) = 0
      \<or> (min_bar_size self \<le> bottom_height (get_frame_bar_state self g)
          \<and> bottom_height (get_frame_bar_state self g) \<le> int (shape0 g)))
   \<and> 0 \<le> left_width (get_frame_bar_state self g)
   \<and> 0 \<le> right_width (get_frame_bar_state self g)
   \<and> 0 \<le> top_height (get_frame_bar_state self g)
   \<and> 0 \<le> bottom_height (get_frame_bar_state self g)"
  using scan_up_le [of "\<lambda>col. np_mean (column g col)" "black_threshold self" "shape1 g"]
        scan_down_le [of "\<lambda>col. np_mean (column g col)" "black_threshold self" "shape1 g"]
        scan_up_le [of "\<lambda>row. np_mean (row_slice g row)" "black_threshold self" "shape0 g"]
        scan_down_le [of "\<lambda>row. np_mean (row_slice g row)" "black_threshold self" "shape0 g"]
  by (simp add: left_width_scan right_width_scan top_height_scan bottom_height_scan Let_def)

theorem get_frame_bar_state_range_witness:
  "get_frame_bar_state (detector_with 1 5) frame_left_bar
     = \<lparr>left_width = 1, right_width = 0, top_height = 0, bottom_height = 0\<rparr>
   \<and> min_bar_size (detector_with 1 5) \<le> 1 \<and> 1 \<le> int (shape1 frame_left_bar)"
proof -
  have state: "get_frame_bar_state (detector_with 1 5) frame_left_bar
     = \<lparr>left_width = 1, right_width = 0, top_height = 0, bottom_height = 0\<rparr>"
    by code_simp
  from get_frame_bar_state_range [of "detector_with 1 5" frame_left_bar]
  have "min_bar_size (detector_with 1 5) \<le> 1 \<and> 1 \<le> int (shape1 frame_left_bar)"
    by (simp add: state)
  with state show ?thesis by simp
qed

section \<open>Detecting cuts\<close>

text \<open>
  A run that returns has appended to \<^verbatim>\<open>cuts\<close> the cut events of the visited frames,
  the previous state standing in front of them when there is one.
\<close>

lemma analyze_loop_cuts_between:
  "analyze_loop det sr fps fs prev n acc = Inr cuts \<Longrightarrow>
   cuts = acc @ cuts_between det fps
            (case prev of None \<Rightarrow> visited det sr n fs | Some p \<Rightarrow> (m, p) # visited det sr n fs)"
proof (induction fs arbitrary: prev n acc m)
  case Nil
  then show ?case by (simp split: option.splits)
next
  case (Cons f fs)
  show ?case
  proof (cases "n mod sr = 0")
    case False
    with Cons.prems have sr: "sr \<noteq> 0" and
      run: "analyze_loop det sr fps fs prev (n + 1) acc = Inr cuts"
      by (auto split: if_splits)
    from Cons.IH [OF run, of m] False show ?thesis by (simp split: option.splits)
  next
    case True
    from Cons.prems have sr: "sr \<noteq> 0" by (auto split: if_splits)
    let ?cur = "get_frame_bar_state det f"
    show ?thesis
    proof (cases prev)
      case None
      with Cons.prems True sr have
        run: "analyze_loop det sr fps fs (Some ?cur) (n + 1) acc = Inr cuts"
        by (simp add: Let_def)
      from Cons.IH [OF run, of n] None True show ?thesis by simp
    next
      case (Some p)
      show ?thesis
      proof (cases "states_significantly_different det p ?cur")
        case False
        with Cons.prems True sr Some have
          run: "analyze_loop det sr fps fs (Some ?cur) (n + 1) acc = Inr cuts"
          by (simp add: Let_def)
        from Cons.IH [OF run, of n] Some True False show ?thesis by simp
      next
        case diff: True
        with Cons.prems True sr Some have fps: "fps \<noteq> 0" and
          run: "analyze_loop det sr fps fs (Some ?cur) (n + 1)
                 (acc @ [\<lparr>timestamp = of_int n / fps, frame_number = n,
                           before_state = p, after_state = ?cur\<rparr>]) = Inr cuts"
          by (auto simp: Let_def split: if_splits)
        from Cons.IH [OF run, of n] Some True diff show ?thesis by simp
      qed
    qed
  qed
qed

lemma analyze_loop_returns:
  "sr \<noteq> 0 \<Longrightarrow> fps \<noteq> 0 \<Longrightarrow> \<exists>cuts. analyze_loop det sr fps fs prev n acc = Inr cuts"
  by (induction fs arbitrary: prev n acc) (auto simp: Let_def split: option.splits)

lemma visited_ge: "x \<in> set (visited det sr n fs) \<Longrightarrow> n \<le> fst x"
proof (induction fs arbitrary: n)
  case Nil
  then show ?case by simp
next
  case (Cons f fs)
  then show ?case by (fastforce split: if_splits)
qed

lemma visited_sorted: "sorted_wrt (<) (map fst (visited det sr n fs))"
proof (induction fs arbitrary: n)
  case Nil
  then show ?case by simp
next
  case (Cons f fs)
  have "n < fst x" if "x \<in> set (visited det sr (n + 1) fs)" for x
    using visited_ge [OF that] by simp
  with Cons.IH [of "n + 1"] show ?case by auto
qed

lemma cuts_between_frames:
  "c \<in> set (cuts_between det fps vs) \<Longrightarrow> frame_number c \<in> fst ` set (tl vs)"
  by (induction det fps vs rule: cuts_between.induct) (auto split: if_splits)

lemma cuts_between_sorted:
  "sorted_wrt (<) (map fst vs) \<Longrightarrow> sorted_wrt (<) (map frame_number (cuts_between det fps vs))"
proof (induction det fps vs rule: cuts_between.induct)
  case (1 det fps a b rest)
  have "fst b < frame_number c" if "c \<in> set (cuts_between det fps (b # rest))" for c
    using cuts_between_frames [OF that] "1.prems" by auto
  with 1 show ?case by (auto simp: sorted_wrt_append)
qed simp_all

lemma cuts_between_nth:
  "distinct (map fst vs) \<Longrightarrow> i < length vs \<Longrightarrow>
   (\<exists>c\<in>set (cuts_between det fps vs). frame_number c = fst (vs ! i))
     = (0 < i \<and> states_significantly_different det (snd (vs ! (i - 1))) (snd (vs ! i)))"
proof (induction det fps vs arbitrary: i rule: cuts_between.induct)
  case (1 det fps a b rest)
  have notin: "\<not> (\<exists>c\<in>set (cuts_between det fps (b # rest)). frame_number c = fst b)"
    using "1.IH" [of 0] "1.prems" by simp
  have tail: "frame_number c \<in> fst ` set rest" if "c \<in> set (cuts_between det fps (b # rest))" for c
    using cuts_between_frames [OF that] by simp
  show ?case
  proof (cases i)
    case 0
    have a: "fst a \<notin> fst ` set rest" "fst a \<noteq> fst b" using "1.prems" by auto
    then have "\<not> (\<exists>c\<in>set (cuts_between det fps (b # rest)). frame_number c = fst a)"
      using tail by metis
    with 0 a(2) show ?thesis by (auto split: if_splits)
  next
    case (Suc j)
    show ?thesis
    proof (cases j)
      case 0
      with Suc notin show ?thesis by auto
    next
      case (Suc k)
      have ne: "fst (rest ! k) \<noteq> fst b" using "1.prems" Suc \<open>i = Suc j\<close>
        by (auto simp: image_iff) (metis nth_mem)
      have "j < length (b # rest)" using "1.prems" \<open>i = Suc j\<close> by simp
      from "1.IH" [OF _ this] "1.prems" have
        "(\<exists>c\<in>set (cuts_between det fps (b # rest)). frame_number c = fst ((b # rest) ! j))
          = (0 < j \<and> states_significantly_different det (snd ((b # rest) ! (j - 1))) (snd ((b # rest) ! j)))"
        by simp
      with Suc \<open>i = Suc j\<close> ne show ?thesis by auto
    qed
  qed
qed simp_all

lemma ssd_exceeds:
  "states_significantly_different det a b = exceeds_tolerance (tolerance_pixels det) a b"
  by (simp add: states_significantly_different_def exceeds_tolerance_def)

text \<open>
  C2. In a run of \<^verbatim>\<open>analyze_video\<close> that returns its cut list, a cut event carries
  the frame number of the \<open>i\<close>-th visited frame exactly when there is a visited frame
  before it (\<open>0 < i\<close>, so never for the first) and the absolute difference of at least
  one of the four fields of the two bar states is strictly above \<^verbatim>\<open>tolerance_pixels\<close>;
  every cut event belongs to a visited frame, and the frame numbers of the cut events
  are strictly increasing. The run returns whenever the capture is open and neither
  the sample rate nor the frame rate is zero.
\<close>

theorem analyze_video_cut_events:
  "(analyze_video path cap det sr = Inr cuts \<longrightarrow>
     (let vs = visited det sr 0 (cap_frames cap) in
        (\<forall>i<length vs. (\<exists>c\<in>set cuts. frame_number c = fst (vs ! i))
            = (0 < i \<and> exceeds_tolerance (tolerance_pixels det) (snd (vs ! (i - 1))) (snd (vs ! i))))
        \<and> (\<forall>c\<in>set cuts. \<exists>i<length vs. frame_number c = fst (vs ! i))
        \<and> (vs \<noteq> [] \<longrightarrow> (\<forall>c\<in>set cuts. frame_number c \<noteq> fst (hd vs)))
        \<and> sorted_wrt (<) (map frame_number cuts)))
   \<and> (isOpened cap \<and> sr \<noteq> 0 \<and> cap_fps cap \<noteq> 0 \<longrightarrow>
        (\<exists>cuts. analyze_video path cap det sr = Inr cuts))"
proof (intro conjI impI)
  assume run: "analyze_video path cap det sr = Inr cuts"
  define vs where "vs = visited det sr 0 (cap_frames cap)"
  from run have "analyze_loop det sr (cap_fps cap) (cap_frames cap) None 0 [] = Inr cuts"
    by (simp add: analyze_video_def split: if_splits)
  from analyze_loop_cuts_between [OF this, of 0]
  have cuts: "cuts = cuts_between det (cap_fps cap) vs"
    by (simp add: vs_def)
  have sorted: "sorted_wrt (<) (map fst vs)"
    unfolding vs_def by (rule visited_sorted)
  then have dist: "distinct (map fst vs)"
    by (simp add: strict_sorted_iff)
  have nth: "\<forall>i<length vs. (\<exists>c\<in>set cuts. frame_number c = fst (vs ! i))
            = (0 < i \<and> exceeds_tolerance (tolerance_pixels det) (snd (vs ! (i - 1))) (snd (vs ! i)))"
    using cuts_between_nth [OF dist] by (simp add: cuts ssd_exceeds)
  have visited_only: "\<forall>c\<in>set cuts. \<exists>i<length vs. frame_number c = fst (vs ! i)"
  proof
    fix c assume "c \<in> set cuts"
    then have "frame_number c \<in> fst ` set (tl vs)"
      unfolding cuts by (rule cuts_between_frames)
    then have "frame_number c \<in> fst ` set vs"
      by (cases vs) auto
    then show "\<exists>i<length vs. frame_number c = fst (vs ! i)"
      by (force simp: in_set_conv_nth)
  qed
  have first: "vs \<noteq> [] \<longrightarrow> (\<forall>c\<in>set cuts. frame_number c \<noteq> fst (hd vs))"
  proof (intro impI ballI)
    fix c assume ne: "vs \<noteq> []" and c: "c \<in> set cuts"
    from ne nth have "\<not> (\<exists>c\<in>set cuts. frame_number c = fst (vs ! 0))"
      by auto
    with c ne show "frame_number c \<noteq> fst (hd vs)"
      by (auto simp: hd_conv_nth)
  qed
  have incr: "sorted_wrt (<) (map frame_number cuts)"
    unfolding cuts using sorted by (rule cuts_between_sorted)
  from nth visited_only first incr
  show "let vs = visited det sr 0 (cap_frames cap) in
        (\<forall>i<length vs. (\<exists>c\<in>set cuts. frame_number c = fst (vs ! i))
            = (0 < i \<and> exceeds_tolerance (tolerance_pixels det) (snd (vs ! (i - 1))) (snd (vs ! i))))
        \<and> (\<forall>c\<in>set cuts. \<exists>i<length vs. frame_number c = fst (vs ! i))
        \<and> (vs \<noteq> [] \<longrightarrow> (\<forall>c\<in>set cuts. frame_number c \<noteq> fst (hd vs)))
        \<and> sorted_wrt (<) (map frame_number cuts)"
    unfolding vs_def Let_def by blast
next
  assume "isOpened cap \<and> sr \<noteq> 0 \<and> cap_fps cap \<noteq> 0"
  then show "\<exists>cuts. analyze_video path cap det sr = Inr cuts"
    using analyze_loop_returns [of sr "cap_fps cap" det "cap_frames cap" None 0 "[]"]
    by (simp add: analyze_video_def)
qed

theorem analyze_video_cut_events_witness:
  "analyze_video ''clip.mp4'' example_capture (detector_with 1 0) 1 =
     Inr [\<lparr>timestamp = 1 / 15, frame_number = 2,
           before_state = \<lparr>left_width = 1, right_width = 0, top_height = 0, bottom_height = 0\<rparr>,
           after_state = \<lparr>left_width = 0, right_width = 0, top_height = 0, bottom_height = 0\<rparr>\<rparr>]
   \<and> visited (detector_with 1 0) 1 0 (cap_frames example_capture) =
       [(0, \<lparr>left_width = 1, right_width = 0, top_height = 0, bottom_height = 0\<rparr>),
        (1, \<lparr>left_width = 1, right_width = 0, top_height = 0, bottom_height = 0\<rparr>),
        (2, \<lparr>left_width = 0, right_width = 0, top_height = 0, bottom_height = 0\<rparr>)]
   \<and> exceeds_tolerance 0 \<lparr>left_width = 1, right_width = 0, top_height = 0, bottom_height = 0\<rparr>
         \<lparr>left_width = 0, right_width = 0, top_height = 0, bottom_height = 0\<rparr>
   \<and> sorted_wrt (<) [2::int]
   \<and> isOpened example_capture \<and> cap_fps example_capture \<noteq> 0"
proof -
  let ?cut = "\<lparr>timestamp = 1 / 15, frame_number = 2,
           before_state = \<lparr>left_width = 1, right_width = 0, top_height = 0, bottom_height = 0\<rparr>,
           after_state = \<lparr>left_width = 0, right_width = 0, top_height = 0, bottom_height = 0\<rparr>\<rparr>"
  have run: "analyze_video ''clip.mp4'' example_capture (detector_with 1 0) 1 = Inr [?cut]"
    by code_simp
  have vs: "visited (detector_with 1 0) 1 0 (cap_frames example_capture) =
       [(0, \<lparr>left_width = 1, right_width = 0, top_height = 0, bottom_height = 0\<rparr>),
        (1, \<lparr>left_width = 1, right_width = 0, top_height = 0, bottom_height = 0\<rparr>),
        (2, \<lparr>left_width = 0, right_width = 0, top_height = 0, bottom_height = 0\<rparr>)]"
    by code_simp
  note props = analyze_video_cut_events [THEN conjunct1, THEN mp, OF run]
  from props have sorted: "sorted_wrt (<) (map frame_number [?cut])"
    by (simp add: Let_def)
  from props have "(\<exists>c\<in>set [?cut]. frame_number c = 2)
      = exceeds_tolerance 0 \<lparr>left_width = 1, right_width = 0, top_height = 0, bottom_height = 0\<rparr>
         \<lparr>left_width = 0, right_width = 0, top_height = 0, bottom_height = 0\<rparr>"
    unfolding vs Let_def by (auto simp: detector_with_def dest!: spec [of _ 2])
  then have ex: "exceeds_tolerance 0 \<lparr>left_width = 1, right_width = 0, top_height = 0, bottom_height = 0\<rparr>
         \<lparr>left_width = 0, right_width = 0, top_height = 0, bottom_height = 0\<rparr>"
    by simp
  have "isOpened example_capture \<and> cap_fps example_capture \<noteq> 0"
    by (simp add: example_capture_def)
  with run vs ex sorted show ?thesis by simp
qed

text \<open>
  C8. When the capture cannot be opened, \<^verbatim>\<open>analyze_video\<close> fails with the
  \<^verbatim>\<open>ValueError\<close> whose message ends in the file path, and returns no cut list.
\<close>

theorem analyze_video_source_unavailable:
  assumes "\<not> isOpened cap"
  shows "analyze_video path cap det sr = Inl (ValueError (''Could not open video file: '' @ path))
         \<and> (\<forall>cuts. analyze_video path cap det sr \<noteq> Inr cuts)"
  using assms by (simp add: analyze_video_def)

theorem analyze_video_source_unavailable_witness:
  "\<not> isOpened \<lparr>isOpened = False, cap_fps = 0, cap_frames = []\<rparr>
   \<and> analyze_video ''missing.mp4'' \<lparr>isOpened = False, cap_fps = 0, cap_frames = []\<rparr>
         (detector_with 10 5) 1
       = Inl (ValueError ''Could not open video file: missing.mp4'')"
proof -
  have closed: "\<not> isOpened \<lparr>isOpened = False, cap_fps = 0, cap_frames = []\<rparr>"
    by simp
  from analyze_video_source_unavailable [OF closed, of "''missing.mp4''" "detector_with 10 5" 1] closed
  show ?thesis by simp
qed

lemma analyze_loop_equal_states:
  assumes "0 \<le> tolerance_pixels det" and "\<forall>f\<in>set fs. get_frame_bar_state det f = s"
    and "prev = None \<or> prev = Some s" and "sr \<noteq> 0"
  shows "analyze_loop det sr fps fs prev n acc = Inr acc"
  using assms(2,3)
proof (induction fs arbitrary: prev n)
  case Nil
  then show ?case by simp
next
  case (Cons f fs)
  have same: "\<not> states_significantly_different det s s"
    using assms(1) by (simp add: states_significantly_different_def)
  from Cons.prems have f: "get_frame_bar_state det f = s" by simp
  from Cons.prems have rest: "\<forall>f\<in>set fs. get_frame_bar_state det f = s" by simp
  from Cons.prems(2) show ?case
    using Cons.IH [OF rest] f same assms(4) by (auto simp: Let_def)
qed

lemma analyze_loop_needs_sample_rate:
  "analyze_loop det sr fps fs prev n acc = Inr cuts \<Longrightarrow> sr \<noteq> 0 \<or> cuts = acc"
  by (cases fs) (auto split: if_splits)

text \<open>
  C10. With a tolerance of at least 0 no bar state differs significantly from itself,
  so a run over frames that all measure the same bar state returns no cut event (it
  returns the empty list when the capture is open and the sample rate is not zero).
  With a negative tolerance every bar state differs significantly from itself.
\<close>

theorem equal_states_no_cuts:
  "(0 \<le> tolerance_pixels det \<longrightarrow>
      \<not> states_significantly_different det s s
      \<and> ((\<forall>f\<in>set (cap_frames cap). get_frame_bar_state det f = s) \<longrightarrow>
           (\<forall>cuts. analyze_video path cap det sr = Inr cuts \<longrightarrow> cuts = [])
           \<and> (isOpened cap \<and> sr \<noteq> 0 \<longrightarrow> analyze_video path cap det sr = Inr [])))
   \<and> (tolerance_pixels det < 0 \<longrightarrow> states_significantly_different det s s)"
proof (intro conjI impI allI)
  assume "0 \<le> tolerance_pixels det"
  then show "\<not> states_significantly_different det s s"
    by (simp add: states_significantly_different_def)
next
  fix cuts
  assume tol: "0 \<le> tolerance_pixels det"
    and eq: "\<forall>f\<in>set (cap_frames cap). get_frame_bar_state det f = s"
    and run: "analyze_video path cap det sr = Inr cuts"
  from run have loop: "analyze_loop det sr (cap_fps cap) (cap_frames cap) None 0 [] = Inr cuts"
    by (simp add: analyze_video_def split: if_splits)
  show "cuts = []"
  proof (cases "sr = 0")
    case True
    with analyze_loop_needs_sample_rate [OF loop] show ?thesis by simp
  next
    case False
    from analyze_loop_equal_states [OF tol eq _ False, of None "cap_fps cap" 0 "[]"] loop
    show ?thesis by simp
  qed
next
  assume tol: "0 \<le> tolerance_pixels det"
    and eq: "\<forall>f\<in>set (cap_frames cap). get_frame_bar_state det f = s"
    and "isOpened cap \<and> sr \<noteq> 0"
  then show "analyze_video path cap det sr = Inr []"
    using analyze_loop_equal_states [OF tol eq, of None sr "cap_fps cap" 0 "[]"]
    by (simp add: analyze_video_def)
next
  assume "tolerance_pixels det < 0"
  then show "states_significantly_different det s s"
    by (simp add: states_significantly_different_def)
qed

theorem equal_states_no_cuts_witness:
  "0 \<le> tolerance_pixels (detector_with 1 5)
   \<and> list_all (\<lambda>f. get_frame_bar_state (detector_with 1 5) f
          = \<lparr>left_width = 1, right_width = 0, top_height = 0, bottom_height = 0\<rparr>)
        (cap_frames uniform_capture)
   \<and> isOpened uniform_capture
   \<and> analyze_video ''clip.mp4'' uniform_capture (detector_with 1 5) 1 = Inr []
   \<and> tolerance_pixels (detector_with 1 (- 1)) < 0
   \<and> states_significantly_different (detector_with 1 (- 1))
        \<lparr>left_width = 1, right_width = 0, top_height = 0, bottom_height = 0\<rparr>
        \<lparr>left_width = 1, right_width = 0, top_height = 0, bottom_height = 0\<rparr>"
proof -
  let ?s = "\<lparr>left_width = 1, right_width = 0, top_height = 0, bottom_height = 0\<rparr>"
  have tol: "0 \<le> tolerance_pixels (detector_with 1 5)"
    by (simp add: detector_with_def)
  have eq: "list_all (\<lambda>f. get_frame_bar_state (detector_with 1 5) f = ?s) (cap_frames uniform_capture)"
    by code_simp
  then have eq': "\<forall>f\<in>set (cap_frames uniform_capture). get_frame_bar_state (detector_with 1 5) f = ?s"
    by (simp add: list_all_iff)
  have opened: "isOpened uniform_capture \<and> (1::int) \<noteq> 0"
    by (simp add: uniform_capture_def)
  from equal_states_no_cuts [of "detector_with 1 5" ?s uniform_capture "''clip.mp4''" 1] tol eq' opened
  have run: "analyze_video ''clip.mp4'' uniform_capture (detector_with 1 5) 1 = Inr []"
    by blast
  have neg: "tolerance_pixels (detector_with 1 (- 1)) < 0"
    by (simp add: detector_with_def)
  from equal_states_no_cuts [of "detector_with 1 (- 1)" ?s] neg
  have self: "states_significantly_different (detector_with 1 (- 1)) ?s ?s"
    by blast
  from tol eq opened run neg self show ?thesis by simp
qed

section \<open>Planning the segments\<close>

lemma foldl_append_map: "foldl (\<lambda>acc i. acc @ [f i]) acc xs = acc @ map f xs"
  by (induction xs arbitrary: acc) simp_all

lemma segments_unfold:
  assumes "cuts \<noteq> []"
  shows "split_video_by_cuts_segments cuts total_frames =
    (0, frame_number (cuts ! 0), ''segment_01'', Some (before_state (cuts ! 0)))
    # map (\<lambda>i. (frame_number (cuts ! i), frame_number (cuts ! (i + 1)),
                 ''segment_'' @ fmt_02d (i + 2), Some (after_state (cuts ! i))))
        [0..<length cuts - 1]
    @ (if frame_number (last cuts) < total_frames
       then [(frame_number (last cuts), total_frames, ''segment_'' @ fmt_02d (length cuts + 1),
              Some (after_state (last cuts)))]
       else [])"
  using assms by (simp add: split_video_by_cuts_segments_def Let_def foldl_append_map)

lemma segments_length:
  assumes "cuts \<noteq> []"
  shows "length (split_video_by_cuts_segments cuts total_frames) =
           (if frame_number (last cuts) < total_frames then length cuts + 1 else length cuts)"
  using assms by (simp add: segments_unfold)

lemma segments_first:
  assumes "cuts \<noteq> []"
  shows "split_video_by_cuts_segments cuts total_frames ! 0 =
           (0, frame_number (cuts ! 0), ''segment_01'', Some (before_state (cuts ! 0)))"
  using assms by (simp add: segments_unfold)

lemma segments_between:
  assumes "i + 1 < length cuts"
  shows "split_video_by_cuts_segments cuts total_frames ! (i + 1) =
           (frame_number (cuts ! i), frame_number (cuts ! (i + 1)),
            ''segment_'' @ fmt_02d (i + 2), Some (after_state (cuts ! i)))"
proof -
  from assms have ne: "cuts \<noteq> []" by auto
  from assms have i: "i < length cuts - 1" by simp
  show ?thesis
    using i by (simp add: segments_unfold [OF ne] nth_append)
qed

lemma segments_final:
  assumes "cuts \<noteq> []" and "frame_number (last cuts) < total_frames"
  shows "split_video_by_cuts_segments cuts total_frames ! length cuts =
           (frame_number (last cuts), total_frames, ''segment_'' @ fmt_02d (length cuts + 1),
            Some (after_state (last cuts)))"
proof -
  from assms(1) obtain n where n: "length cuts = Suc n" by (cases cuts) auto
  show ?thesis
    using assms(2) by (simp add: segments_unfold [OF assms(1)] n nth_append)
qed

lemma segments_nth_bounds:
  assumes "cuts \<noteq> []" and "i < length (split_video_by_cuts_segments cuts total_frames)"
  shows "start_frame (split_video_by_cuts_segments cuts total_frames ! i)
           = (if i = 0 then 0 else frame_number (cuts ! (i - 1)))
         \<and> end_frame (split_video_by_cuts_segments cuts total_frames ! i)
           = (if i < length cuts then frame_number (cuts ! i) else total_frames)"
proof (cases i)
  case 0
  with assms(1) show ?thesis
    by (simp add: segments_first start_frame_def end_frame_def)
next
  case (Suc j)
  show ?thesis
  proof (cases "j + 1 < length cuts")
    case True
    from segments_between [OF True, of total_frames] Suc True show ?thesis
      by (simp add: start_frame_def end_frame_def)
  next
    case False
    with assms Suc have len: "j + 1 = length cuts" and lt: "frame_number (last cuts) < total_frames"
      by (auto simp: segments_length split: if_splits)
    from segments_final [OF assms(1) lt] Suc len assms(1) show ?thesis
      by (simp add: start_frame_def end_frame_def last_conv_nth)
  qed
qed

text \<open>
  C3. Without cuts there is exactly one segment, \<open>[0, total_frames)\<close>, named
  \<^verbatim>\<open>segment_01\<close>, with no reference state. With cuts, the first segment is
  \<open>[0, cuts[0].frame_number)\<close> with \<open>cuts[0].before_state\<close>; for adjacent cuts \<open>i\<close>
  and \<open>i + 1\<close> the segment after it is \<open>[cuts[i].frame_number, cuts[i + 1].frame_number)\<close>
  with \<open>cuts[i].after_state\<close>; and one more segment, from the last cut to
  \<open>total_frames\<close> with the last cut's \<open>after_state\<close>, follows exactly when the last
  cut's frame number is strictly below \<open>total_frames\<close>.
\<close>

theorem segments_by_cut_count:
  "(cuts = [] \<longrightarrow> split_video_by_cuts_segments cuts total_frames = [(0, total_frames, ''segment_01'', None)])
   \<and> (cuts \<noteq> [] \<longrightarrow>
        length (split_video_by_cuts_segments cuts total_frames) =
           (if frame_number (last cuts) < total_frames then length cuts + 1 else length cuts)
      \<and> split_video_by_cuts_segments cuts total_frames ! 0 =
           (0, frame_number (cuts ! 0), ''segment_01'', Some (before_state (cuts ! 0)))
      \<and> (\<forall>i. i + 1 < length cuts \<longrightarrow>
            split_video_by_cuts_segments cuts total_frames ! (i + 1) =
              (frame_number (cuts ! i), frame_number (cuts ! (i + 1)),
               ''segment_'' @ fmt_02d (i + 2), Some (after_state (cuts ! i))))
      \<and> (frame_number (last cuts) < total_frames \<longrightarrow>
            split_video_by_cuts_segments cuts total_frames ! length cuts =
              (frame_number (last cuts), total_frames, ''segment_'' @ fmt_02d (length cuts + 1),
               Some (after_state (last cuts)))))"
proof (intro conjI impI allI)
  assume "cuts = []"
  then show "split_video_by_cuts_segments cuts total_frames = [(0, total_frames, ''segment_01'', None)]"
    by (simp add: split_video_by_cuts_segments_def)
next
  assume "cuts \<noteq> []"
  then show "length (split_video_by_cuts_segments cuts total_frames) =
           (if frame_number (last cuts) < total_frames then length cuts + 1 else length cuts)"
    by (rule segments_length)
next
  assume "cuts \<noteq> []"
  then show "split_video_by_cuts_segments cuts total_frames ! 0 =
           (0, frame_number (cuts ! 0), ''segment_01'', Some (before_state (cuts ! 0)))"
    by (rule segments_first)
next
  fix i assume "i + 1 < length cuts"
  then show "split_video_by_cuts_segments cuts total_frames ! (i + 1) =
              (frame_number (cuts ! i), frame_number (cuts ! (i + 1)),
               ''segment_'' @ fmt_02d (i + 2), Some (after_state (cuts ! i)))"
    by (rule segments_between)
next
  assume "cuts \<noteq> []" and "frame_number (last cuts) < total_frames"
  then show "split_video_by_cuts_segments cuts total_frames ! length cuts =
              (frame_number (last cuts), total_frames, ''segment_'' @ fmt_02d (length cuts + 1),
               Some (after_state (last cuts)))"
    by (rule segments_final)
qed

theorem segments_by_cut_count_witness:
  "split_video_by_cuts_segments [] 300 = [(0, 300, ''segment_01'', None)]
   \<and> two_cuts \<noteq> [] \<and> 0 + 1 < length two_cuts \<and> frame_number (last two_cuts) < 300
   \<and> length (split_video_by_cuts_segments two_cuts 300) = 3
   \<and> split_video_by_cuts_segments two_cuts 300 ! 0 = (0, 100, ''segment_01'', Some (bars 10 10 0 0))
   \<and> split_video_by_cuts_segments two_cuts 300 ! 1 = (100, 200, ''segment_02'', Some (bars 0 0 0 0))
   \<and> split_video_by_cuts_segments two_cuts 300 ! 2 = (200, 300, ''segment_03'', Some (bars 0 0 20 20))"
proof -
  have names: "fmt_02d 2 = ''02''" "fmt_02d 3 = ''03''"
    by code_simp+
  have cuts: "length two_cuts = 2"
    "frame_number (two_cuts ! 0) = 100" "frame_number (two_cuts ! 1) = 200"
    "frame_number (last two_cuts) = 200"
    "before_state (two_cuts ! 0) = bars 10 10 0 0" "after_state (two_cuts ! 0) = bars 0 0 0 0"
    "after_state (last two_cuts) = bars 0 0 20 20"
    by (simp_all add: two_cuts_def example_cut_def)
  have arith: "(0::nat) + 1 = 1" "(0::nat) + 2 = 2" "(2::nat) + 1 = 3"
    by simp_all
  have hyps: "two_cuts \<noteq> []" "0 + 1 < length two_cuts" "frame_number (last two_cuts) < 300"
    by (simp_all add: two_cuts_def example_cut_def)
  have no_cuts: "split_video_by_cuts_segments [] 300 = [(0, 300, ''segment_01'', None)]"
    using segments_by_cut_count [of "[]" 300] by simp
  note with_cuts = segments_by_cut_count [of two_cuts 300, THEN conjunct2, THEN mp, OF hyps(1)]
  from with_cuts hyps(3) have len: "length (split_video_by_cuts_segments two_cuts 300) = 3"
    by (simp add: cuts)
  from with_cuts have first:
    "split_video_by_cuts_segments two_cuts 300 ! 0 = (0, 100, ''segment_01'', Some (bars 10 10 0 0))"
    by (simp add: cuts)
  from with_cuts hyps(2) have "split_video_by_cuts_segments two_cuts 300 ! (0 + 1) =
      (frame_number (two_cuts ! 0), frame_number (two_cuts ! (0 + 1)),
       ''segment_'' @ fmt_02d (0 + 2), Some (after_state (two_cuts ! 0)))"
    by blast
  then have second:
    "split_video_by_cuts_segments two_cuts 300 ! 1 = (100, 200, ''segment_02'', Some (bars 0 0 0 0))"
    by (simp only: cuts names arith append.simps)
  from with_cuts hyps(3) have "split_video_by_cuts_segments two_cuts 300 ! length two_cuts =
      (frame_number (last two_cuts), 300, ''segment_'' @ fmt_02d (length two_cuts + 1),
       Some (after_state (last two_cuts)))"
    by blast
  then have third:
    "split_video_by_cuts_segments two_cuts 300 ! 2 = (200, 300, ''segment_03'', Some (bars 0 0 20 20))"
    by (simp only: cuts names arith append.simps)
  from no_cuts hyps len first second third show ?thesis by simp
qed

text \<open>
  C1, as the code has it. For every cut list and every frame count the segment list
  is not empty, its first segment starts at 0, and each further segment starts where
  the one before it ends. The last segment ends at \<open>total_frames\<close> when there is no
  cut or the last cut's frame number is at most \<open>total_frames\<close>; otherwise it ends
  at the last cut's frame number.
\<close>

theorem segments_contiguous:
  "split_video_by_cuts_segments cuts total_frames \<noteq> []
   \<and> start_frame (hd (split_video_by_cuts_segments cuts total_frames)) = 0
   \<and> (\<forall>i. i + 1 < length (split_video_by_cuts_segments cuts total_frames) \<longrightarrow>
         start_frame (split_video_by_cuts_segments cuts total_frames ! (i + 1))
           = end_frame (split_video_by_cuts_segments cuts total_frames ! i))
   \<and> end_frame (last (split_video_by_cuts_segments cuts total_frames))
       = (if cuts = [] \<or> frame_number (last cuts) \<le> total_frames then total_frames
          else frame_number (last cuts))"
proof (cases "cuts = []")
  case True
  then show ?thesis
    by (simp add: split_video_by_cuts_segments_def start_frame_def end_frame_def)
next
  case False
  let ?segs = "split_video_by_cuts_segments cuts total_frames"
  have ne: "?segs \<noteq> []"
    using False by (simp add: segments_unfold)
  have first: "start_frame (hd ?segs) = 0"
    using segments_nth_bounds [OF False, of 0 total_frames] ne by (simp add: hd_conv_nth)
  have contiguous: "start_frame (?segs ! (i + 1)) = end_frame (?segs ! i)"
    if "i + 1 < length ?segs" for i
  proof -
    from that False have "i < length cuts"
      by (simp add: segments_length split: if_splits)
    with segments_nth_bounds [OF False that] segments_nth_bounds [OF False, of i total_frames] that
    show ?thesis by simp
  qed
  have final: "end_frame (last ?segs)
       = (if frame_number (last cuts) \<le> total_frames then total_frames else frame_number (last cuts))"
  proof (cases "frame_number (last cuts) < total_frames")
    case True
    then have "length ?segs = length cuts + 1"
      using False by (simp add: segments_length)
    with segments_nth_bounds [OF False, of "length cuts" total_frames] ne True show ?thesis
      by (simp add: last_conv_nth)
  next
    case no_tail: False
    then have len: "length ?segs = length cuts"
      using False by (simp add: segments_length)
    from False obtain n where n: "length cuts = Suc n" by (cases cuts) auto
    with segments_nth_bounds [OF False, of n total_frames] ne len no_tail False show ?thesis
      by (simp add: last_conv_nth)
  qed
  from ne first contiguous final False show ?thesis by simp
qed

theorem segments_contiguous_witness:
  "start_frame (hd (split_video_by_cuts_segments two_cuts 300)) = 0
   \<and> length (split_video_by_cuts_segments two_cuts 300) = 3
   \<and> start_frame (split_video_by_cuts_segments two_cuts 300 ! 1)
       = end_frame (split_video_by_cuts_segments two_cuts 300 ! 0)
   \<and> start_frame (split_video_by_cuts_segments two_cuts 300 ! 2)
       = end_frame (split_video_by_cuts_segments two_cuts 300 ! 1)
   \<and> frame_number (last two_cuts) \<le> 300
   \<and> end_frame (last (split_video_by_cuts_segments two_cuts 300)) = 300"
proof -
  have len: "length (split_video_by_cuts_segments two_cuts 300) = 3"
    by code_simp
  have le: "frame_number (last two_cuts) \<le> 300"
    by (simp add: two_cuts_def example_cut_def)
  note inst = segments_contiguous [of two_cuts 300]
  from inst have first: "start_frame (hd (split_video_by_cuts_segments two_cuts 300)) = 0"
    by blast
  from inst have step: "i + 1 < length (split_video_by_cuts_segments two_cuts 300) \<Longrightarrow>
     start_frame (split_video_by_cuts_segments two_cuts 300 ! (i + 1))
       = end_frame (split_video_by_cuts_segments two_cuts 300 ! i)" for i
    by blast
  from inst le have final: "end_frame (last (split_video_by_cuts_segments two_cuts 300)) = 300"
    by simp
  from step [of 0] len
  have one: "start_frame (split_video_by_cuts_segments two_cuts 300 ! 1)
       = end_frame (split_video_by_cuts_segments two_cuts 300 ! 0)"
    by simp
  from step [of 1] len
  have two: "start_frame (split_video_by_cuts_segments two_cuts 300 ! 2)
       = end_frame (split_video_by_cuts_segments two_cuts 300 ! 1)"
    by (simp add: numeral_2_eq_2)
  from first len one two le final show ?thesis by blast
qed

text \<open>
  C1 as stated fails when the last cut lies beyond the frame count: for a single cut
  at frame 5 and a frame count of 3 the only segment is \<open>[0, 5)\<close>, which does not end
  at 3.
\<close>

theorem segments_partition_counterexample:
  "\<not> (let segments = split_video_by_cuts_segments [example_cut 5 (bars 10 10 0 0) (bars 0 0 0 0)] 3 in
        start_frame (hd segments) = 0
        \<and> (\<forall>i. i + 1 < length segments \<longrightarrow>
              start_frame (segments ! (i + 1)) = end_frame (segments ! i))
        \<and> end_frame (last segments) = 3)"
proof -
  have "split_video_by_cuts_segments [example_cut 5 (bars 10 10 0 0) (bars 0 0 0 0)] 3 =
          [(0, 5, ''segment_01'', Some (bars 10 10 0 0))]"
    by (simp add: split_video_by_cuts_segments_def example_cut_def)
  then show ?thesis
    by (simp add: Let_def end_frame_def)
qed

section \<open>Crop geometry\<close>

lemma crop_filter_string_nonempty: "crop_filter_string r \<noteq> []"
  by (simp add: crop_filter_string_def split: prod.splits)

lemma calculate_crop_filter_eq:
  "calculate_crop_filter s w h =
     (if (left_width s > 0 \<or> right_width s > 0 \<or> top_height s > 0 \<or> bottom_height s > 0)
         \<and> w - left_width s - right_width s \<ge> 64 \<and> h - top_height s - bottom_height s \<ge> 64
      then crop_filter_string (left_width s, top_height s,
             w - left_width s - right_width s, h - top_height s - bottom_height s)
      else [])"
  by (auto simp: calculate_crop_filter_def crop_filter_string_def Let_def)

lemma split_with_ffmpeg_crop_args_eq:
  "split_with_ffmpeg_crop_args bs w h =
     (case bs of
        None \<Rightarrow> []
      | Some s \<Rightarrow>
          if (left_width s \<le> 0 \<and> right_width s \<le> 0 \<and> top_height s \<le> 0 \<and> bottom_height s \<le> 0)
             \<or> w \<le> 0 \<or> h \<le> 0
             \<or> w - left_width s - right_width s < 64 \<or> h - top_height s - bottom_height s < 64
          then []
          else [''-vf'', crop_filter_string (left_width s, top_height s,
                  w - left_width s - right_width s, h - top_height s - bottom_height s)])"
  by (auto simp: split_with_ffmpeg_crop_args_def calculate_crop_filter_eq Let_def
      crop_filter_string_nonempty split: option.splits)

text \<open>
  C4. For an absent state and for every bar state of the data model (four
  non-negative sizes), and all frame dimensions, the crop computation follows the
  rule of the specification: no crop when the state is absent, or all four fields are
  zero, or the crop width \<open>width - left - right\<close> or the crop height
  \<open>height - top - bottom\<close> is at most 0 or below 64; otherwise the rectangle
  \<open>(x = left, y = top, crop width, crop height)\<close>. Every rectangle requested has
  width and height at least 64.
\<close>

theorem crop_args_rule:
  assumes "case bs of None \<Rightarrow> True | Some s \<Rightarrow> non_negative s"
  shows "split_with_ffmpeg_crop_args bs w h = crop_args_of (crop_rule bs w h)
    \<and> (split_with_ffmpeg_crop_args bs w h \<noteq> [] \<longrightarrow>
        (\<exists>s. bs = Some s
           \<and> 64 \<le> w - left_width s - right_width s \<and> 64 \<le> h - top_height s - bottom_height s
           \<and> split_with_ffmpeg_crop_args bs w h =
               [''-vf'', crop_filter_string (left_width s, top_height s,
                  w - left_width s - right_width s, h - top_height s - bottom_height s)]))"
proof (cases bs)
  case None
  then show ?thesis
    by (simp add: split_with_ffmpeg_crop_args_def crop_rule_def crop_args_of_def)
next
  case (Some s)
  with assms have nonneg: "0 \<le> left_width s" "0 \<le> right_width s"
    "0 \<le> top_height s" "0 \<le> bottom_height s"
    by (simp_all add: non_negative_def)
  have rule: "split_with_ffmpeg_crop_args bs w h = crop_args_of (crop_rule bs w h)"
    unfolding split_with_ffmpeg_crop_args_eq using Some nonneg
    by (auto simp: crop_args_of_def crop_rule_def Let_def)
  have rect: "\<exists>s. bs = Some s
           \<and> 64 \<le> w - left_width s - right_width s \<and> 64 \<le> h - top_height s - bottom_height s
           \<and> split_with_ffmpeg_crop_args bs w h =
               [''-vf'', crop_filter_string (left_width s, top_height s,
                  w - left_width s - right_width s, h - top_height s - bottom_height s)]"
    if "split_with_ffmpeg_crop_args bs w h \<noteq> []"
    using that Some unfolding split_with_ffmpeg_crop_args_eq by (auto split: if_splits)
  from rule rect show ?thesis by blast
qed

theorem crop_args_rule_witness:
  "non_negative (bars 10 10 0 0) \<and> non_negative (bars 0 0 0 0)
   \<and> crop_rule (Some (bars 10 10 0 0)) 200 100 = Some (10, 0, 180, 100)
   \<and> split_with_ffmpeg_crop_args (Some (bars 10 10 0 0)) 200 100 = [''-vf'', ''crop=180:100:10:0'']
   \<and> split_with_ffmpeg_crop_args (Some (bars 0 0 0 0)) 200 100 = []
   \<and> split_with_ffmpeg_crop_args (Some (bars 10 10 0 0)) 80 100 = []
   \<and> split_with_ffmpeg_crop_args None 200 100 = []"
proof -
  have bars: "case Some (bars 10 10 0 0) of None \<Rightarrow> True | Some s \<Rightarrow> non_negative s"
    by (simp add: non_negative_def bars_def)
  have none: "case Some (bars 0 0 0 0) of None \<Rightarrow> True | Some s \<Rightarrow> non_negative s"
    by (simp add: non_negative_def bars_def)
  have absent: "case (None :: BarState option) of None \<Rightarrow> True | Some s \<Rightarrow> non_negative s"
    by simp
  have rendered: "crop_filter_string (10, 0, 180, 100) = ''crop=180:100:10:0''"
    by code_simp
  have rule: "crop_rule (Some (bars 10 10 0 0)) 200 100 = Some (10, 0, 180, 100)"
    by (simp add: crop_rule_def bars_def)
  from crop_args_rule [OF bars, of 200 100, THEN conjunct1]
  have crop: "split_with_ffmpeg_crop_args (Some (bars 10 10 0 0)) 200 100
          = [''-vf'', ''crop=180:100:10:0'']"
    by (simp add: rule crop_args_of_def rendered)
  from crop_args_rule [OF none, of 200 100, THEN conjunct1]
  have zero: "split_with_ffmpeg_crop_args (Some (bars 0 0 0 0)) 200 100 = []"
    by (simp add: crop_rule_def crop_args_of_def bars_def)
  from crop_args_rule [OF bars, of 80 100, THEN conjunct1]
  have small: "split_with_ffmpeg_crop_args (Some (bars 10 10 0 0)) 80 100 = []"
    by (simp add: crop_rule_def crop_args_of_def bars_def)
  from crop_args_rule [OF absent, of 200 100, THEN conjunct1]
  have missing: "split_with_ffmpeg_crop_args None 200 100 = []"
    by (simp add: crop_rule_def crop_args_of_def)
  from bars none rule crop zero small missing show ?thesis by simp
qed

end
